theory Spec2Isabelle
  imports Main
begin

section \<open>The task manager API of \<^verbatim>\<open>app.py\<close>\<close>

text \<open>
  The service keeps two module-level variables, \<^verbatim>\<open>tasks_db\<close> (a list of dicts) and
  \<^verbatim>\<open>task_id_counter\<close>, and five handlers over them. The handlers are modelled as
  functions from the store to a result and the store afterwards; a raised
  \<^verbatim>\<open>HTTPException\<close> is the \<open>Inl\<close> branch of the result. The clock reading of
  \<^verbatim>\<open>datetime.utcnow().isoformat()\<close> is a parameter of \<open>create_task\<close>.

  Python strings are sequences of code points and \<^verbatim>\<open>len\<close> counts them; here a
  string is a list whose elements stand for the code points, and \<open>length\<close> counts them.
\<close>

subsection \<open>Pydantic models\<close>

record TaskBase =
  title :: string
  description :: "string option"
  completed :: bool

type_synonym TaskCreate = TaskBase

text \<open>The field \<^verbatim>\<open>id\<close> of the source is \<open>id_f\<close> here (\<open>id\<close> is the identity of HOL).\<close>

record Task = TaskBase +
  id_f :: int
  created_at :: string

subsection \<open>In-memory storage\<close>

record store =
  tasks_db :: "Task list"
  task_id_counter :: int

definition init_store :: store where
  "init_store = \<lparr>tasks_db = [], task_id_counter = 1\<rparr>"

subsection \<open>Formatting an integer, as an f-string does\<close>

definition digit :: "nat \<Rightarrow> char" where
  "digit d = ''0123456789'' ! d"

function str_nat :: "nat \<Rightarrow> string" where
  "str_nat n = (if n < 10 then [digit n] else str_nat (n div 10) @ [digit (n mod 10)])"
  by pat_completeness auto
termination
  by (relation "measure (\<lambda>n. n)") auto

declare str_nat.simps [simp del]

definition str_int :: "int \<Rightarrow> string" where
  "str_int i = (if i < 0 then ''-'' @ str_nat (nat (- i)) else str_nat (nat i))"

subsection \<open>Handlers\<close>

datatype HTTPException = HTTPException (exc_status: nat) (exc_detail: string)

definition not_found :: "int \<Rightarrow> HTTPException" where
  "not_found task_id = HTTPException 404 (''Task with id '' @ str_int task_id @ '' not found'')"

text \<open>
  \<^verbatim>\<open>next((i for i, task in enumerate(tasks_db) if ...), None)\<close>: the index of the first
  element that satisfies the test.
\<close>

fun first_index :: "('a \<Rightarrow> bool) \<Rightarrow> 'a list \<Rightarrow> nat option" where
  "first_index P [] = None"
| "first_index P (x # xs) =
     (if P x then Some 0 else map_option Suc (first_index P xs))"

text \<open>
  \<^verbatim>\<open>next((task for task in tasks_db if ...), None)\<close> is \<open>find\<close>. The dict it returns is
  the very object held by the list, so the assignments of \<open>update_task\<close> to its keys are
  seen through the list, at the place of the first element that satisfies the test.
  Every dict of the list is built by its own call of \<open>create_task\<close>, so no two places of
  the list hold the same object.
\<close>

fun mutate_first :: "('a \<Rightarrow> bool) \<Rightarrow> ('a \<Rightarrow> 'a) \<Rightarrow> 'a list \<Rightarrow> 'a list" where
  "mutate_first P f [] = []"
| "mutate_first P f (x # xs) = (if P x then f x # xs else x # mutate_first P f xs)"

text \<open>\<^verbatim>\<open>tasks_db.pop(task_index)\<close>, for an index within the list.\<close>

definition pop :: "nat \<Rightarrow> 'a list \<Rightarrow> 'a list" where
  "pop i xs = take i xs @ drop (Suc i) xs"

text \<open>
  In \<open>get_task\<close> and \<open>update_task\<close> the test \<^verbatim>\<open>not task\<close> holds for \<^verbatim>\<open>None\<close> only: every
  dict of the list has its five keys, so none is empty.
\<close>

definition get_tasks :: "store \<Rightarrow> Task list \<times> store" where
  "get_tasks s = (tasks_db s, s)"

definition get_task :: "store \<Rightarrow> int \<Rightarrow> (HTTPException + Task) \<times> store" where
  "get_task s task_id =
     (case find (\<lambda>task. id_f task = task_id) (tasks_db s) of
        None \<Rightarrow> (Inl (not_found task_id), s)
      | Some task \<Rightarrow> (Inr task, s))"

definition create_task :: "store \<Rightarrow> string \<Rightarrow> TaskCreate \<Rightarrow> Task \<times> store" where
  "create_task s now task =
     (let new_task = \<lparr>title = title task, description = description task,
                      completed = completed task,
                      id_f = task_id_counter s, created_at = now\<rparr>
      in (new_task,
          s\<lparr>tasks_db := tasks_db s @ [new_task],
            task_id_counter := task_id_counter s + 1\<rparr>))"

definition assign :: "TaskCreate \<Rightarrow> Task \<Rightarrow> Task" where
  "assign task_update task =
     task\<lparr>title := title task_update, description := description task_update,
          completed := completed task_update\<rparr>"

definition update_task :: "store \<Rightarrow> int \<Rightarrow> TaskCreate \<Rightarrow> (HTTPException + Task) \<times> store" where
  "update_task s task_id task_update =
     (case find (\<lambda>task. id_f task = task_id) (tasks_db s) of
        None \<Rightarrow> (Inl (not_found task_id), s)
      | Some task \<Rightarrow>
          (Inr (assign task_update task),
           s\<lparr>tasks_db := mutate_first (\<lambda>task. id_f task = task_id) (assign task_update)
                           (tasks_db s)\<rparr>))"

definition delete_task :: "store \<Rightarrow> int \<Rightarrow> (HTTPException + unit) \<times> store" where
  "delete_task s task_id =
     (case first_index (\<lambda>task. id_f task = task_id) (tasks_db s) of
        None \<Rightarrow> (Inl (not_found task_id), s)
      | Some task_index \<Rightarrow> (Inr (), s\<lparr>tasks_db := pop task_index (tasks_db s)\<rparr>))"

subsection \<open>Request validation and responses\<close>

text \<open>
  A request body as it arrives: each key present or not. \<^verbatim>\<open>TaskBase\<close> declares
  \<^verbatim>\<open>title\<close> required with 1 to 100 characters, \<^verbatim>\<open>description\<close> optional (default
  \<^verbatim>\<open>None\<close>) with at most 500 characters, \<^verbatim>\<open>completed\<close> with default \<^verbatim>\<open>False\<close>.
  A handler whose parameter is a \<^verbatim>\<open>TaskCreate\<close> runs only on a body that passes these
  checks; otherwise the framework answers 422 and the handler is not called.
\<close>

record payload =
  p_title :: "string option"
  p_description :: "string option"
  p_completed :: "bool option"

datatype violation = title_missing | title_too_short | title_too_long | description_too_long

definition title_violations :: "string option \<Rightarrow> violation list" where
  "title_violations t =
     (case t of
        None \<Rightarrow> [title_missing]
      | Some x \<Rightarrow> (if length x < 1 then [title_too_short]
                  else if length x > 100 then [title_too_long] else []))"

definition description_violations :: "string option \<Rightarrow> violation list" where
  "description_violations d =
     (case d of
        None \<Rightarrow> []
      | Some x \<Rightarrow> (if length x > 500 then [description_too_long] else []))"

definition validate :: "payload \<Rightarrow> violation list + TaskCreate" where
  "validate p =
     (let vs = title_violations (p_title p) @ description_violations (p_description p)
      in if vs = [] then
           Inr \<lparr>title = (case p_title p of Some x \<Rightarrow> x | None \<Rightarrow> []),
                description = p_description p,
                completed = (case p_completed p of Some b \<Rightarrow> b | None \<Rightarrow> False)\<rparr>
         else Inl vs)"

datatype body =
    Task_body Task
  | Tasks_body "Task list"
  | Detail_body string
  | Validation_body "violation list"
  | Empty_body

datatype response = Response (status_code: nat) (content: body)

datatype request =
    ListTasks
  | GetTask int
  | CreateTask payload
  | UpdateTask int payload
  | DeleteTask int

definition error_response :: "HTTPException \<Rightarrow> response" where
  "error_response e = Response (exc_status e) (Detail_body (exc_detail e))"

text \<open>
  One request, served at clock reading \<open>now\<close>: the status codes are those of the route
  decorators (200 by default, 201 for POST, 204 for DELETE).
\<close>

fun handle :: "string \<Rightarrow> request \<Rightarrow> store \<Rightarrow> response \<times> store" where
  "handle now ListTasks s =
     (case get_tasks s of (ts, s') \<Rightarrow> (Response 200 (Tasks_body ts), s'))"
| "handle now (GetTask task_id) s =
     (case get_task s task_id of
        (Inl e, s') \<Rightarrow> (error_response e, s')
      | (Inr t, s') \<Rightarrow> (Response 200 (Task_body t), s'))"
| "handle now (CreateTask p) s =
     (case validate p of
        Inl vs \<Rightarrow> (Response 422 (Validation_body vs), s)
      | Inr task \<Rightarrow>
          (case create_task s now task of (t, s') \<Rightarrow> (Response 201 (Task_body t), s')))"
| "handle now (UpdateTask task_id p) s =
     (case validate p of
        Inl vs \<Rightarrow> (Response 422 (Validation_body vs), s)
      | Inr task_update \<Rightarrow>
          (case update_task s task_id task_update of
             (Inl e, s') \<Rightarrow> (error_response e, s')
           | (Inr t, s') \<Rightarrow> (Response 200 (Task_body t), s')))"
| "handle now (DeleteTask task_id) s =
     (case delete_task s task_id of
        (Inl e, s') \<Rightarrow> (error_response e, s')
      | (Inr u, s') \<Rightarrow> (Response 204 Empty_body, s'))"

text \<open>A sequence of requests, each with the clock reading at which it is served.\<close>

fun run :: "(string \<times> request) list \<Rightarrow> store \<Rightarrow> response list \<times> store" where
  "run [] s = ([], s)"
| "run ((now, r) # evs) s =
     (case handle now r s of
        (resp, s') \<Rightarrow> (case run evs s' of (resps, s'') \<Rightarrow> (resp # resps, s'')))"

text \<open>The ids handed out by the create operations of a sequence, in order.\<close>

fun created_ids :: "response list \<Rightarrow> int list" where
  "created_ids [] = []"
| "created_ids (Response c (Task_body t) # rs) =
     (if c = 201 then id_f t # created_ids rs else created_ids rs)"
| "created_ids (r # rs) = created_ids rs"

definition ids :: "store \<Rightarrow> int list" where
  "ids s = map id_f (tasks_db s)"

text \<open>The store after a sequence of requests served from process start.\<close>

definition reach :: "(string \<times> request) list \<Rightarrow> store" where
  "reach evs = snd (run evs init_store)"

text \<open>The number of create requests of a sequence that pass validation.\<close>

fun performed_creates :: "(string \<times> request) list \<Rightarrow> nat" where
  "performed_creates [] = 0"
| "performed_creates ((now, CreateTask p) # evs) =
     (case validate p of Inl vs \<Rightarrow> performed_creates evs
      | Inr task \<Rightarrow> Suc (performed_creates evs))"
| "performed_creates (ev # evs) = performed_creates evs"

definition store_inv :: "store \<Rightarrow> bool" where
  "store_inv s \<longleftrightarrow>
     sorted_wrt (<) (ids s) \<and> 1 \<le> task_id_counter s \<and>
     (\<forall>i \<in> set (ids s). 1 \<le> i \<and> i < task_id_counter s)"

text \<open>The ids of the delete requests of a sequence that were answered 204, in order.\<close>

fun deleted_ids :: "(string \<times> request) list \<Rightarrow> response list \<Rightarrow> int list" where
  "deleted_ids ((now, DeleteTask task_id) # evs) (Response c b # rs) =
     (if c = 204 then task_id # deleted_ids evs rs else deleted_ids evs rs)"
| "deleted_ids (ev # evs) (r # rs) = deleted_ids evs rs"
| "deleted_ids evs rs = []"

subsection \<open>Example inputs\<close>

definition buy_milk :: payload where
  "buy_milk = \<lparr>p_title = Some ''Buy milk'', p_description = None, p_completed = None\<rparr>"

definition two_creates_one_delete :: "(string \<times> request) list" where
  "two_creates_one_delete =
     [(''t1'', CreateTask buy_milk), (''t2'', CreateTask buy_milk), (''t3'', DeleteTask 1)]"

definition described_done :: payload where
  "described_done = \<lparr>p_title = Some ''T'', p_description = Some ''D'', p_completed = Some True\<rparr>"

definition title_only :: payload where
  "title_only = \<lparr>p_title = Some ''x'', p_description = None, p_completed = None\<rparr>"

definition three_creates :: "(string \<times> request) list" where
  "three_creates =
     [(''t1'', CreateTask buy_milk), (''t2'', CreateTask described_done),
      (''t3'', CreateTask buy_milk)]"

definition title_of_length :: "nat \<Rightarrow> payload" where
  "title_of_length n =
     \<lparr>p_title = Some (replicate n CHR ''a''), p_description = None, p_completed = None\<rparr>"





section \<open>Lists: first match, mutation in place, pop\<close>

lemma first_index_None: "first_index P xs = None \<longleftrightarrow> (\<forall>x \<in> set xs. \<not> P x)"
  by (induction xs) auto

lemma find_None_ids: "find (\<lambda>task. id_f task = i) (tasks_db s) = None \<longleftrightarrow> i \<notin> set (ids s)"
  by (auto simp: find_None_iff ids_def)

lemma first_index_None_ids:
  "first_index (\<lambda>task. id_f task = i) (tasks_db s) = None \<longleftrightarrow> i \<notin> set (ids s)"
  by (auto simp: first_index_None ids_def)

lemma first_index_Some:
  "first_index P xs = Some i \<Longrightarrow> i < length xs \<and> P (xs ! i) \<and> (\<forall>j < i. \<not> P (xs ! j))"
proof (induction xs arbitrary: i)
  case Nil
  then show ?case by simp
next
  case (Cons x xs)
  show ?case
  proof (cases "P x")
    case True
    with Cons.prems show ?thesis by simp
  next
    case False
    with Cons.prems obtain k where k: "first_index P xs = Some k" "i = Suc k"
      by auto
    from Cons.IH [OF k(1)] False k(2) show ?thesis
      by (auto simp: nth_Cons split: nat.splits)
  qed
qed

lemma find_first_index:
  "find P xs = (case first_index P xs of None \<Rightarrow> None | Some i \<Rightarrow> Some (xs ! i))"
  by (induction xs) (auto split: option.splits)

lemma mutate_first_index:
  "mutate_first P f xs = (case first_index P xs of None \<Rightarrow> xs | Some i \<Rightarrow> xs[i := f (xs ! i)])"
  by (induction xs) (auto split: option.splits)

lemma id_f_assign: "id_f (assign u t) = id_f t"
  by (simp add: assign_def)

lemma map_id_f_mutate:
  "map id_f (mutate_first P (assign u) xs) = map id_f xs"
  by (induction xs) (auto simp: id_f_assign)

lemma set_pop: "set (pop i xs) \<subseteq> set xs"
  unfolding pop_def by (auto dest: in_set_takeD in_set_dropD)

lemma map_pop: "map f (pop i xs) = pop i (map f xs)"
  by (simp add: pop_def take_map drop_map)

lemma sorted_wrt_pop: "sorted_wrt R xs \<Longrightarrow> sorted_wrt R (pop i xs)"
proof -
  assume a: "sorted_wrt R xs"
  have "xs = take i xs @ drop i xs" by simp
  with a have b: "sorted_wrt R (take i xs @ drop i xs)" by simp
  have sub: "set (drop (Suc i) xs) \<subseteq> set (drop i xs)"
    by (simp add: set_drop_subset_set_drop)
  have "sorted_wrt R (drop (Suc i) xs)"
    using a by (rule sorted_wrt_drop)
  with b sub show ?thesis
    unfolding pop_def sorted_wrt_append by blast
qed

lemma distinct_pop_notin:
  assumes "distinct xs" "i < length xs"
  shows "xs ! i \<notin> set (pop i xs)"
proof -
  have xs: "xs = take i xs @ xs ! i # drop (Suc i) xs"
    using assms(2) by (simp add: id_take_nth_drop)
  have "distinct (take i xs @ xs ! i # drop (Suc i) xs)"
    using assms(1) xs by simp
  then show ?thesis
    unfolding pop_def by auto
qed

section \<open>Effect of one request on the store\<close>

lemma handle_list: "handle now ListTasks s = (Response 200 (Tasks_body (tasks_db s)), s)"
  by (simp add: get_tasks_def)

lemma snd_handle_list: "snd (handle now ListTasks s) = s"
  by (simp only: handle_list snd_conv)

lemma snd_get_task [simp]: "snd (get_task s i) = s"
  by (simp add: get_task_def split: option.splits)

lemma snd_handle_get: "snd (handle now (GetTask i) s) = s"
proof -
  obtain r s' where g: "get_task s i = (r, s')" by (cases "get_task s i")
  then have "s' = s" using snd_get_task [of s i] by simp
  with g show ?thesis by (cases r) simp_all
qed

lemma handle_create_valid:
  "validate p = Inr u \<Longrightarrow>
   handle now (CreateTask p) s =
     (Response 201 (Task_body (fst (create_task s now u))), snd (create_task s now u))"
  by (simp add: create_task_def Let_def)

lemma ids_create [simp]: "ids (snd (create_task s now u)) = ids s @ [task_id_counter s]"
  by (simp add: create_task_def ids_def Let_def)

lemma counter_create [simp]:
  "task_id_counter (snd (create_task s now u)) = task_id_counter s + 1"
  by (simp add: create_task_def Let_def)

lemma id_f_create [simp]: "id_f (fst (create_task s now u)) = task_id_counter s"
  by (simp add: create_task_def Let_def)

lemma ids_update [simp]: "ids (snd (update_task s i u)) = ids s"
  by (simp add: update_task_def ids_def map_id_f_mutate split: option.splits)

lemma counter_update [simp]: "task_id_counter (snd (update_task s i u)) = task_id_counter s"
  by (simp add: update_task_def split: option.splits)

lemma counter_delete [simp]: "task_id_counter (snd (delete_task s i)) = task_id_counter s"
  by (simp add: delete_task_def split: option.splits)

lemma ids_delete:
  "ids (snd (delete_task s i)) =
     (case first_index (\<lambda>x. x = i) (ids s) of None \<Rightarrow> ids s | Some k \<Rightarrow> pop k (ids s))"
proof -
  have "first_index (\<lambda>x. x = i) (map id_f xs) = first_index (\<lambda>task. id_f task = i) xs" for xs
    by (induction xs) auto
  then have "first_index (\<lambda>x. x = i) (ids s) = first_index (\<lambda>task. id_f task = i) (tasks_db s)"
    by (simp only: ids_def)
  then show ?thesis
    by (cases "first_index (\<lambda>task. id_f task = i) (tasks_db s)")
       (simp_all add: delete_task_def ids_def map_pop)
qed

lemma snd_handle_update:
  "snd (handle now (UpdateTask i p) s) =
     (case validate p of Inl vs \<Rightarrow> s | Inr u \<Rightarrow> snd (update_task s i u))"
proof (cases "validate p")
  case (Inl vs)
  then show ?thesis by simp
next
  case (Inr u)
  obtain r s' where g: "update_task s i u = (r, s')" by (cases "update_task s i u")
  with Inr show ?thesis by (cases r) simp_all
qed

lemma snd_handle_delete: "snd (handle now (DeleteTask i) s) = snd (delete_task s i)"
proof -
  obtain r s' where g: "delete_task s i = (r, s')" by (cases "delete_task s i")
  then show ?thesis by (cases r) simp_all
qed

lemma snd_handle_create:
  "snd (handle now (CreateTask p) s) =
     (case validate p of Inl vs \<Rightarrow> s | Inr u \<Rightarrow> snd (create_task s now u))"
  by (cases "validate p") (simp_all add: split_beta)

declare handle.simps [simp del]

lemma counter_handle:
  "task_id_counter (snd (handle now r s)) =
     task_id_counter s + int (performed_creates [(now, r)])"
proof (cases r)
  case (CreateTask p)
  then show ?thesis by (cases "validate p") (simp_all add: snd_handle_create)
next
  case (UpdateTask i p)
  then show ?thesis by (simp add: snd_handle_update split: sum.splits)
next
  case (DeleteTask i)
  then show ?thesis by (simp add: snd_handle_delete)
qed (simp_all add: snd_handle_list snd_handle_get)

lemma store_inv_handle: "store_inv s \<Longrightarrow> store_inv (snd (handle now r s))"
proof (cases r)
  case (CreateTask p)
  assume "store_inv s"
  then show ?thesis
    unfolding CreateTask snd_handle_create
    by (cases "validate p") (auto simp: store_inv_def sorted_wrt_append)
next
  case (UpdateTask i p)
  assume "store_inv s"
  then show ?thesis
    unfolding UpdateTask snd_handle_update
    by (cases "validate p") (auto simp: store_inv_def)
next
  case (DeleteTask i)
  assume inv: "store_inv s"
  show ?thesis
  proof (cases "first_index (\<lambda>x. x = i) (ids s)")
    case None
    with inv show ?thesis
      unfolding DeleteTask snd_handle_delete
      by (simp add: store_inv_def ids_delete)
  next
    case (Some k)
    from inv have "sorted_wrt (<) (pop k (ids s))"
      by (simp add: store_inv_def sorted_wrt_pop)
    moreover from inv have "\<forall>x \<in> set (pop k (ids s)). 1 \<le> x \<and> x < task_id_counter s"
      using set_pop [of k "ids s"] by (auto simp: store_inv_def)
    moreover from inv have "1 \<le> task_id_counter s"
      by (simp add: store_inv_def)
    ultimately show ?thesis
      unfolding DeleteTask snd_handle_delete
      by (simp add: store_inv_def ids_delete Some)
  qed
qed (simp_all add: snd_handle_list snd_handle_get)

lemma store_inv_run: "store_inv s \<Longrightarrow> store_inv (snd (run evs s))"
proof (induction evs arbitrary: s)
  case Nil
  then show ?case by simp
next
  case (Cons ev evs)
  obtain now r where ev: "ev = (now, r)" by (cases ev)
  from Cons.prems have "store_inv (snd (handle now r s))" by (rule store_inv_handle)
  then have "store_inv (snd (run evs (snd (handle now r s))))" by (rule Cons.IH)
  then show ?case by (simp add: ev split_beta)
qed

lemma store_inv_init: "store_inv init_store"
  by (simp add: store_inv_def init_store_def ids_def)

lemma store_inv_reach: "store_inv (reach evs)"
  unfolding reach_def by (rule store_inv_run [OF store_inv_init])

lemma counter_run:
  "task_id_counter (snd (run evs s)) = task_id_counter s + int (performed_creates evs)"
proof (induction evs arbitrary: s)
  case Nil
  then show ?case by simp
next
  case (Cons ev evs)
  obtain now r where ev: "ev = (now, r)" by (cases ev)
  have "performed_creates ((now, r) # evs) = performed_creates [(now, r)] + performed_creates evs"
    by (cases r) (simp_all split: sum.splits)
  then show ?case
    by (simp add: ev split_beta Cons.IH counter_handle)
qed

lemma created_ids_error [simp]: "created_ids (error_response e # rs) = created_ids rs"
  by (simp add: error_response_def)

lemma created_ids_handle:
  "created_ids (fst (handle now r s) # rs) =
     (if performed_creates [(now, r)] = 0 then created_ids rs
      else task_id_counter s # created_ids rs)"
proof (cases r)
  case (GetTask i)
  obtain x s' where g: "get_task s i = (x, s')" by (cases "get_task s i")
  with GetTask show ?thesis by (cases x) (simp_all add: handle.simps)
next
  case (CreateTask p)
  then show ?thesis by (cases "validate p") (simp_all add: handle.simps split_beta)
next
  case (UpdateTask i p)
  show ?thesis
  proof (cases "validate p")
    case (Inl vs)
    with UpdateTask show ?thesis by (simp add: handle.simps)
  next
    case (Inr u)
    obtain x s' where g: "update_task s i u = (x, s')" by (cases "update_task s i u")
    with UpdateTask Inr show ?thesis by (cases x) (simp_all add: handle.simps)
  qed
next
  case (DeleteTask i)
  obtain x s' where g: "delete_task s i = (x, s')" by (cases "delete_task s i")
  with DeleteTask show ?thesis by (cases x) (simp_all add: handle.simps)
qed (simp_all add: handle_list)

lemma created_ids_run:
  "created_ids (fst (run evs s)) =
     map (\<lambda>k. task_id_counter s + int k) [0..<performed_creates evs]"
proof (induction evs arbitrary: s)
  case Nil
  then show ?case by simp
next
  case (Cons ev evs)
  obtain now r where ev: "ev = (now, r)" by (cases ev)
  let ?s' = "snd (handle now r s)"
  have split: "performed_creates ((now, r) # evs) = performed_creates [(now, r)] + performed_creates evs"
    by (cases r) (simp_all split: sum.splits)
  have le1: "performed_creates [(now, r)] \<le> 1"
    by (cases r) (simp_all split: sum.splits)
  have run: "fst (run ((now, r) # evs) s) = fst (handle now r s) # fst (run evs ?s')"
    by (simp add: split_beta)
  show ?case
  proof (cases "performed_creates [(now, r)] = 0")
    case True
    then show ?thesis
      unfolding ev run created_ids_handle split
      using counter_handle [of now r s] by (simp add: Cons.IH)
  next
    case False
    with le1 have one: "performed_creates [(now, r)] = 1" by simp
    have "map (\<lambda>k. task_id_counter s + int k) [0..<Suc (performed_creates evs)] =
          task_id_counter s # map (\<lambda>k. task_id_counter s + 1 + int k) [0..<performed_creates evs]"
      by (simp add: upt_conv_Cons map_Suc_upt [symmetric] del: upt_Suc)
    then show ?thesis
      unfolding ev run created_ids_handle split one
      using counter_handle [of now r s] one by (simp add: Cons.IH)
  qed
qed

section \<open>Evaluation on the example inputs\<close>

lemmas eval_defs =
  reach_def init_store_def handle.simps validate_def title_violations_def
  description_violations_def create_task_def update_task_def delete_task_def get_task_def
  get_tasks_def assign_def pop_def ids_def error_response_def not_found_def str_int_def
  str_nat.simps digit_def Let_def buy_milk_def two_creates_one_delete_def

lemma reach_example:
  "reach two_creates_one_delete =
     \<lparr>tasks_db = [\<lparr>title = ''Buy milk'', description = None, completed = False,
                    id_f = 2, created_at = ''t2''\<rparr>],
      task_id_counter = 3\<rparr>"
  by (simp add: eval_defs)

lemma reach_three_creates:
  "reach three_creates =
     \<lparr>tasks_db =
        [\<lparr>title = ''Buy milk'', description = None, completed = False,
          id_f = 1, created_at = ''t1''\<rparr>,
         \<lparr>title = ''T'', description = Some ''D'', completed = True,
          id_f = 2, created_at = ''t2''\<rparr>,
         \<lparr>title = ''Buy milk'', description = None, completed = False,
          id_f = 3, created_at = ''t3''\<rparr>],
      task_id_counter = 4\<rparr>"
  by (simp add: eval_defs three_creates_def described_done_def)

lemma validate_title_only:
  "validate title_only = Inr \<lparr>title = ''x'', description = None, completed = False\<rparr>"
  by (simp add: validate_def title_violations_def description_violations_def title_only_def)

lemma validate_Inr:
  "validate p = Inr u \<Longrightarrow>
   p_title p = Some (title u) \<and> description u = p_description p \<and>
   completed u = (case p_completed p of Some b \<Rightarrow> b | None \<Rightarrow> False) \<and>
   1 \<le> length (title u) \<and> length (title u) \<le> 100"
  by (auto simp: validate_def title_violations_def Let_def Suc_le_eq split: option.splits if_splits)

lemma in_ids_first_index:
  "task_id \<in> set (ids s) \<Longrightarrow>
   \<exists>i. first_index (\<lambda>task. id_f task = task_id) (tasks_db s) = Some i"
  using first_index_None_ids [of task_id s] by (cases "first_index (\<lambda>task. id_f task = task_id) (tasks_db s)") auto

lemma update_task_present:
  assumes "first_index (\<lambda>task. id_f task = task_id) (tasks_db s) = Some i"
  shows "update_task s task_id u =
           (Inr (assign u (tasks_db s ! i)),
            s\<lparr>tasks_db := (tasks_db s)[i := assign u (tasks_db s ! i)]\<rparr>)"
  using assms by (simp add: update_task_def find_first_index mutate_first_index)

lemma handle_update_present:
  assumes "first_index (\<lambda>task. id_f task = task_id) (tasks_db s) = Some i"
    and "validate p = Inr u"
  shows "handle now (UpdateTask task_id p) s =
           (Response 200 (Task_body (assign u (tasks_db s ! i))),
            s\<lparr>tasks_db := (tasks_db s)[i := assign u (tasks_db s ! i)]\<rparr>)"
  by (simp add: handle.simps assms(2) update_task_present [OF assms(1)])

lemma first_index_update_same:
  assumes "first_index P xs = Some i" and "P y"
  shows "first_index P (xs[i := y]) = Some i"
  using assms
proof (induction xs arbitrary: i)
  case Nil
  then show ?case by simp
next
  case (Cons x xs)
  then show ?case by (cases "P x") auto
qed

section \<open>Validation\<close>

lemma status_error_not_found [simp]: "status_code (error_response (not_found i)) = 404"
  by (simp add: error_response_def not_found_def)

lemma status_update_valid:
  "validate p = Inr u \<Longrightarrow> status_code (fst (handle now (UpdateTask i p) s)) \<in> {200, 404}"
  by (simp add: handle.simps update_task_def split: option.splits)

lemma status_delete: "status_code (fst (handle now (DeleteTask i) s)) \<in> {204, 404}"
  by (simp add: handle.simps delete_task_def split: option.splits)

lemma rejected_unchanged:
  "status_code (fst (handle now r s)) = 422 \<Longrightarrow> snd (handle now r s) = s"
proof (cases r)
  case ListTasks
  then show ?thesis by (simp add: handle_list)
next
  case (GetTask i)
  then show ?thesis by (simp add: snd_handle_get)
next
  case (CreateTask p)
  assume a: "status_code (fst (handle now r s)) = 422"
  show ?thesis
  proof (cases "validate p")
    case (Inl vs)
    then show ?thesis by (simp add: CreateTask handle.simps)
  next
    case (Inr u)
    with a show ?thesis by (simp add: CreateTask handle_create_valid)
  qed
next
  case (UpdateTask i p)
  assume a: "status_code (fst (handle now r s)) = 422"
  show ?thesis
  proof (cases "validate p")
    case (Inl vs)
    then show ?thesis by (simp add: UpdateTask handle.simps)
  next
    case (Inr u)
    with a status_update_valid [OF Inr, of now i s] show ?thesis by (simp add: UpdateTask)
  qed
next
  case (DeleteTask i)
  assume a: "status_code (fst (handle now r s)) = 422"
  with status_delete [of now i s] show ?thesis by (simp add: DeleteTask)
qed

lemma validate_bad_title:
  "length t = 101 \<or> length t = 0 \<Longrightarrow>
   \<exists>vs. validate \<lparr>p_title = Some t, p_description = d, p_completed = c\<rparr> = Inl vs"
  by (auto simp: validate_def title_violations_def Let_def)

lemma validate_good_title:
  "length t = 100 \<Longrightarrow> description_violations d = [] \<Longrightarrow>
   validate \<lparr>p_title = Some t, p_description = d, p_completed = c\<rparr> =
     Inr \<lparr>title = t, description = d, completed = (case c of Some b \<Rightarrow> b | None \<Rightarrow> False)\<rparr>"
  by (simp add: validate_def title_violations_def Let_def)

section \<open>Absent ids\<close>

lemma handle_get_absent:
  "task_id \<notin> set (ids s) \<Longrightarrow>
   handle now (GetTask task_id) s =
     (Response 404 (Detail_body (''Task with id '' @ str_int task_id @ '' not found'')), s)"
proof -
  assume "task_id \<notin> set (ids s)"
  then have "find (\<lambda>task. id_f task = task_id) (tasks_db s) = None"
    by (simp add: find_None_ids)
  then show ?thesis
    by (simp add: handle.simps get_task_def error_response_def not_found_def)
qed

lemma handle_delete_absent:
  "task_id \<notin> set (ids s) \<Longrightarrow>
   handle now (DeleteTask task_id) s =
     (Response 404 (Detail_body (''Task with id '' @ str_int task_id @ '' not found'')), s)"
proof -
  assume "task_id \<notin> set (ids s)"
  then have "first_index (\<lambda>task. id_f task = task_id) (tasks_db s) = None"
    by (simp add: first_index_None_ids)
  then show ?thesis
    by (simp add: handle.simps delete_task_def error_response_def not_found_def)
qed

lemma delete_accepted_present:
  assumes "fst (handle now (DeleteTask task_id) s) = Response 204 Empty_body"
  shows "task_id \<in> set (ids s)"
proof (rule ccontr)
  assume "task_id \<notin> set (ids s)"
  from handle_delete_absent [OF this, of now] assms show False by simp
qed

lemma deleted_absent:
  assumes "distinct (ids s)"
  shows "task_id \<notin> set (ids (snd (delete_task s task_id)))"
proof (cases "first_index (\<lambda>x. x = task_id) (ids s)")
  case None
  then have "task_id \<notin> set (ids s)"
    by (auto simp: first_index_None)
  with None show ?thesis by (simp add: ids_delete)
next
  case (Some k)
  from first_index_Some [OF Some] have k: "k < length (ids s)" "ids s ! k = task_id"
    by simp_all
  from distinct_pop_notin [OF assms k(1)] k(2) Some show ?thesis
    by (simp add: ids_delete)
qed

lemma ids_handle_subset:
  "set (ids (snd (handle now r s))) \<subseteq> insert (task_id_counter s) (set (ids s))"
proof (cases r)
  case ListTasks
  then show ?thesis by (auto simp: snd_handle_list)
next
  case (GetTask i)
  then show ?thesis by (auto simp: snd_handle_get)
next
  case (CreateTask p)
  then show ?thesis by (cases "validate p") (auto simp: snd_handle_create)
next
  case (UpdateTask i p)
  then show ?thesis by (cases "validate p") (auto simp: snd_handle_update)
next
  case (DeleteTask i)
  show ?thesis
    using set_pop [of _ "ids s"]
    by (auto simp: DeleteTask snd_handle_delete ids_delete split: option.splits)
qed

lemma absent_handle:
  assumes "task_id \<notin> set (ids s)" and "task_id < task_id_counter s"
  shows "task_id \<notin> set (ids (snd (handle now r s))) \<and>
         task_id < task_id_counter (snd (handle now r s))"
proof -
  from assms ids_handle_subset [of now r s]
  have "task_id \<notin> set (ids (snd (handle now r s)))" by auto
  moreover from assms(2) have "task_id < task_id_counter (snd (handle now r s))"
    by (simp add: counter_handle)
  ultimately show ?thesis by simp
qed

lemma absent_run:
  assumes "task_id \<notin> set (ids s)" and "task_id < task_id_counter s"
  shows "task_id \<notin> set (ids (snd (run evs s)))"
  using assms
proof (induction evs arbitrary: s)
  case Nil
  then show ?case by simp
next
  case (Cons ev evs)
  obtain now r where ev: "ev = (now, r)" by (cases ev)
  from absent_handle [OF Cons.prems, of now r]
  have "task_id \<notin> set (ids (snd (run evs (snd (handle now r s)))))"
    by (intro Cons.IH) simp_all
  then show ?case by (simp add: ev split_beta)
qed

section \<open>Create, then read\<close>

lemma find_append_new:
  assumes "\<forall>x \<in> set xs. \<not> P x" and "P y"
  shows "find P (xs @ [y]) = Some y"
  using assms by (induction xs) auto

lemma get_after_create:
  assumes "store_inv s"
  shows "get_task (snd (create_task s now u)) (task_id_counter s) =
           (Inr (fst (create_task s now u)), snd (create_task s now u))"
proof -
  from assms have "\<forall>t \<in> set (tasks_db s). id_f t \<noteq> task_id_counter s"
    by (auto simp: store_inv_def ids_def)
  then have "find (\<lambda>task. id_f task = task_id_counter s)
               (tasks_db s @ [fst (create_task s now u)]) = Some (fst (create_task s now u))"
    by (intro find_append_new) simp_all
  then show ?thesis
    by (simp add: get_task_def create_task_def Let_def)
qed

section \<open>The listed ids along a sequence of requests\<close>

lemma pop_filter:
  assumes "distinct xs" and "k < length xs"
  shows "pop k xs = filter (\<lambda>x. x \<noteq> xs ! k) xs"
proof -
  have xs: "xs = take k xs @ xs ! k # drop (Suc k) xs"
    using assms(2) by (simp add: id_take_nth_drop)
  have d: "distinct (take k xs @ xs ! k # drop (Suc k) xs)"
    using assms(1) xs by simp
  then have a: "filter (\<lambda>x. x \<noteq> xs ! k) (take k xs) = take k xs"
    by (intro filter_True) auto
  from d have b: "filter (\<lambda>x. x \<noteq> xs ! k) (drop (Suc k) xs) = drop (Suc k) xs"
    by (intro filter_True) auto
  have "filter (\<lambda>x. x \<noteq> xs ! k) (take k xs @ xs ! k # drop (Suc k) xs) =
        take k xs @ drop (Suc k) xs"
    by (simp add: a b)
  with xs show ?thesis by (simp add: pop_def)
qed

lemma ids_delete_present:
  assumes "distinct (ids s)" and "task_id \<in> set (ids s)"
  shows "ids (snd (delete_task s task_id)) = filter (\<lambda>x. x \<noteq> task_id) (ids s)"
proof (cases "first_index (\<lambda>x. x = task_id) (ids s)")
  case None
  with assms(2) show ?thesis by (auto simp: first_index_None)
next
  case (Some k)
  from first_index_Some [OF Some] have k: "k < length (ids s)" "ids s ! k = task_id"
    by simp_all
  from pop_filter [OF assms(1) k(1)] k(2) Some show ?thesis
    by (simp add: ids_delete)
qed

lemma ids_delete_absent:
  "task_id \<notin> set (ids s) \<Longrightarrow> ids (snd (delete_task s task_id)) = ids s"
proof -
  assume "task_id \<notin> set (ids s)"
  then have "first_index (\<lambda>task. id_f task = task_id) (tasks_db s) = None"
    by (simp add: first_index_None_ids)
  then show ?thesis by (simp add: delete_task_def)
qed

lemma handle_delete_present:
  assumes "task_id \<in> set (ids s)"
  shows "fst (handle now (DeleteTask task_id) s) = Response 204 Empty_body"
proof -
  from in_ids_first_index [OF assms] obtain i where
    "first_index (\<lambda>task. id_f task = task_id) (tasks_db s) = Some i" by blast
  then show ?thesis by (simp add: handle.simps delete_task_def)
qed

lemma deleted_ids_handle:
  "deleted_ids ((now, r) # evs) (fst (handle now r s) # rs) =
     (case r of
        DeleteTask task_id \<Rightarrow>
          (if task_id \<in> set (ids s) then task_id # deleted_ids evs rs else deleted_ids evs rs)
      | _ \<Rightarrow> deleted_ids evs rs)"
proof (cases r)
  case ListTasks
  then show ?thesis by (simp add: handle_list)
next
  case (GetTask i)
  then show ?thesis by (cases "fst (handle now (GetTask i) s)") simp
next
  case (CreateTask p)
  then show ?thesis by (cases "fst (handle now (CreateTask p) s)") simp
next
  case (UpdateTask i p)
  then show ?thesis by (cases "fst (handle now (UpdateTask i p) s)") simp
next
  case (DeleteTask i)
  show ?thesis
  proof (cases "i \<in> set (ids s)")
    case True
    from handle_delete_present [OF True, of now] True show ?thesis
      by (simp add: DeleteTask)
  next
    case False
    from handle_delete_absent [OF False, of now] False show ?thesis
      by (simp add: DeleteTask)
  qed
qed

lemma created_ids_run_above:
  "i < task_id_counter s \<Longrightarrow> i \<notin> set (created_ids (fst (run evs s)))"
  by (auto simp: created_ids_run)

lemma ids_run_trace:
  assumes "store_inv s"
  shows "ids (snd (run evs s)) =
           filter (\<lambda>i. i \<notin> set (deleted_ids evs (fst (run evs s))))
             (ids s @ created_ids (fst (run evs s)))"
  using assms
proof (induction evs arbitrary: s)
  case Nil
  then show ?case by simp
next
  case (Cons ev evs)
  obtain now r where ev: "ev = (now, r)" by (cases ev)
  let ?s1 = "snd (handle now r s)"
  let ?rs = "fst (run evs ?s1)"
  let ?D = "deleted_ids evs ?rs"
  let ?C = "created_ids ?rs"
  have inv1: "store_inv ?s1" using Cons.prems by (rule store_inv_handle)
  have IH: "ids (snd (run evs ?s1)) = filter (\<lambda>i. i \<notin> set ?D) (ids ?s1 @ ?C)"
    by (rule Cons.IH [OF inv1])
  have f: "fst (run ((now, r) # evs) s) = fst (handle now r s) # ?rs"
    and sn: "snd (run ((now, r) # evs) s) = snd (run evs ?s1)"
    by (simp_all add: split_beta)
  have dist: "distinct (ids s)"
    using Cons.prems by (simp add: store_inv_def strict_sorted_iff)
  have D: "deleted_ids ((now, r) # evs) (fst (run ((now, r) # evs) s)) =
     (case r of
        DeleteTask task_id \<Rightarrow> (if task_id \<in> set (ids s) then task_id # ?D else ?D)
      | _ \<Rightarrow> ?D)"
    unfolding f by (rule deleted_ids_handle)
  have C: "created_ids (fst (run ((now, r) # evs) s)) =
     (if performed_creates [(now, r)] = 0 then ?C else task_id_counter s # ?C)"
    unfolding f by (rule created_ids_handle)
  show ?case
  proof (cases r)
    case ListTasks
    then show ?thesis
      unfolding ev sn D C IH by (simp add: snd_handle_list)
  next
    case (GetTask i)
    then show ?thesis
      unfolding ev sn D C IH by (simp add: snd_handle_get)
  next
    case (CreateTask p)
    then show ?thesis
      unfolding ev sn D C IH by (cases "validate p") (simp_all add: snd_handle_create)
  next
    case (UpdateTask i p)
    then show ?thesis
      unfolding ev sn D C IH by (cases "validate p") (simp_all add: snd_handle_update)
  next
    case (DeleteTask i)
    show ?thesis
    proof (cases "i \<in> set (ids s)")
      case False
      with DeleteTask show ?thesis
        unfolding ev sn D C IH by (simp add: snd_handle_delete ids_delete_absent)
    next
      case True
      with Cons.prems have "i < task_id_counter s"
        by (simp add: store_inv_def)
      then have "i < task_id_counter ?s1"
        by (simp add: counter_handle)
      then have "i \<notin> set ?C"
        by (rule created_ids_run_above)
      then have c: "filter (\<lambda>x. x \<noteq> i \<and> x \<notin> set ?D) ?C = filter (\<lambda>x. x \<notin> set ?D) ?C"
        by (intro filter_cong) auto
      have d: "ids ?s1 = filter (\<lambda>x. x \<noteq> i) (ids s)"
        unfolding DeleteTask snd_handle_delete by (rule ids_delete_present [OF dist True])
      have "filter (\<lambda>x. x \<notin> set ?D) (ids ?s1 @ ?C) =
            filter (\<lambda>x. x \<notin> set (i # ?D)) (ids s @ ?C)"
        by (simp add: d c)
      with True DeleteTask show ?thesis
        unfolding ev sn D C IH by simp
    qed
  qed
qed

lemma ids_reach_trace:
  "ids (reach evs) =
     filter (\<lambda>i. i \<notin> set (deleted_ids evs (fst (run evs init_store))))
       (created_ids (fst (run evs init_store)))"
  using ids_run_trace [OF store_inv_init, of evs]
  by (simp add: reach_def) (simp add: ids_def init_store_def)

lemma pop_filter_key:
  assumes "distinct (map f xs)" and "k < length xs"
  shows "pop k xs = filter (\<lambda>x. f x \<noteq> f (xs ! k)) xs"
proof -
  have xs: "xs = take k xs @ xs ! k # drop (Suc k) xs"
    using assms(2) by (simp add: id_take_nth_drop)
  have "distinct (map f (take k xs @ xs ! k # drop (Suc k) xs))"
    using assms(1) xs by simp
  then have n: "f (xs ! k) \<notin> f ` set (take k xs)" "f (xs ! k) \<notin> f ` set (drop (Suc k) xs)"
    by auto
  from n(1) have a: "filter (\<lambda>x. f x \<noteq> f (xs ! k)) (take k xs) = take k xs"
    by (intro filter_True) (metis imageI)
  from n(2) have b: "filter (\<lambda>x. f x \<noteq> f (xs ! k)) (drop (Suc k) xs) = drop (Suc k) xs"
    by (intro filter_True) (metis imageI)
  have "filter (\<lambda>x. f x \<noteq> f (xs ! k)) (take k xs @ xs ! k # drop (Suc k) xs) =
        take k xs @ drop (Suc k) xs"
    by (simp add: a b)
  with xs show ?thesis by (simp add: pop_def)
qed

lemma tasks_delete_present:
  assumes "distinct (ids s)" and "task_id \<in> set (ids s)"
  shows "tasks_db (snd (delete_task s task_id)) =
           filter (\<lambda>task. id_f task \<noteq> task_id) (tasks_db s)"
proof -
  from in_ids_first_index [OF assms(2)] obtain k where
    k: "first_index (\<lambda>task. id_f task = task_id) (tasks_db s) = Some k" by blast
  from first_index_Some [OF k] have b: "k < length (tasks_db s)" "id_f (tasks_db s ! k) = task_id"
    by simp_all
  from assms(1) have "distinct (map id_f (tasks_db s))" by (simp add: ids_def)
  from pop_filter_key [OF this b(1)] b(2) k show ?thesis
    by (simp add: delete_task_def)
qed

section \<open>Id assignment\<close>

text \<open>
  Claim C1. Whatever requests are served from the empty store, deletions included, the
  ids handed out by the successful creates are \<open>1, 2, ..., n\<close> in this order, \<open>n\<close> being
  the number of creates performed: they are strictly increasing from 1 and none is handed
  out twice. The ids of the tasks in the store reached are pairwise distinct.
\<close>

theorem ids_strictly_increasing_from_1:
  "created_ids (fst (run evs init_store)) = map int [1..<Suc (performed_creates evs)]
   \<and> sorted_wrt (<) (created_ids (fst (run evs init_store)))
   \<and> distinct (created_ids (fst (run evs init_store)))
   \<and> distinct (ids (reach evs))"
proof -
  have "map (\<lambda>k. 1 + int k) [0..<n] = map int [1..<Suc n]" for n
    by (induction n) simp_all
  then have eq: "created_ids (fst (run evs init_store)) = map int [1..<Suc (performed_creates evs)]"
    by (simp add: created_ids_run init_store_def)
  have inc: "sorted_wrt (<) (map int [1..<Suc n])" for n
    by (simp add: sorted_wrt_map sorted_wrt_upt del: upt_Suc) 
  have "sorted_wrt (<) (ids (reach evs))"
    using store_inv_reach [of evs] by (simp add: store_inv_def)
  then have "distinct (ids (reach evs))"
    by (simp add: strict_sorted_iff)
  with eq inc show ?thesis
    by (simp add: distinct_map del: upt_Suc)
qed

section \<open>The id counter\<close>

text \<open>
  Claim C10. In the store reached by any sequence of requests from process start, the id
  counter is 1 plus the number of creates performed and is strictly greater than the id of
  every task in the store. From any store, serving a list, get, update or delete request
  leaves the counter as it is; a delete neither decrements nor resets it.
\<close>

theorem counter_above_every_id:
  "task_id_counter (reach evs) = 1 + int (performed_creates evs)
   \<and> (\<forall>t \<in> set (tasks_db (reach evs)). id_f t < task_id_counter (reach evs))
   \<and> task_id_counter (snd (handle now ListTasks s)) = task_id_counter s
   \<and> task_id_counter (snd (handle now (GetTask task_id) s)) = task_id_counter s
   \<and> task_id_counter (snd (handle now (UpdateTask task_id p) s)) = task_id_counter s
   \<and> task_id_counter (snd (handle now (DeleteTask task_id) s)) = task_id_counter s"
proof -
  have "task_id_counter (reach evs) = 1 + int (performed_creates evs)"
    by (simp add: reach_def counter_run init_store_def)
  moreover have "\<forall>t \<in> set (tasks_db (reach evs)). id_f t < task_id_counter (reach evs)"
    using store_inv_reach [of evs] by (simp add: store_inv_def ids_def)
  moreover have "task_id_counter (snd (handle now (UpdateTask task_id p) s)) = task_id_counter s"
    by (simp add: snd_handle_update split: sum.splits)
  ultimately show ?thesis
    by (simp add: snd_handle_list snd_handle_get snd_handle_delete)
qed

theorem counter_above_every_id_witness:
  "tasks_db (reach two_creates_one_delete) =
     [\<lparr>title = ''Buy milk'', description = None, completed = False,
       id_f = 2, created_at = ''t2''\<rparr>]
   \<and> task_id_counter (reach two_creates_one_delete) = 3
   \<and> performed_creates two_creates_one_delete = 2
   \<and> task_id_counter (snd (handle ''t4'' (DeleteTask 2) (reach two_creates_one_delete))) = 3"
  using counter_above_every_id [of two_creates_one_delete "''t4''" "reach two_creates_one_delete" 2 buy_milk]
  by (simp add: reach_example)

section \<open>Not found\<close>

text \<open>
  Claim C3. For an id that no task in the store bears, each of \<open>get_task\<close>,
  \<open>update_task\<close> and \<open>delete_task\<close> raises the 404 exception whose detail is exactly
  \<^verbatim>\<open>Task with id <id> not found\<close>, the id printed in decimal, and the response to the
  request is this 404 (for an update, once its body has passed validation). The store,
  counter included, is returned as it was.
\<close>

theorem absent_id_gives_404:
  assumes "task_id \<notin> set (ids s)"
  shows "get_task s task_id =
           (Inl (HTTPException 404 (''Task with id '' @ str_int task_id @ '' not found'')), s)
       \<and> update_task s task_id task_update =
           (Inl (HTTPException 404 (''Task with id '' @ str_int task_id @ '' not found'')), s)
       \<and> delete_task s task_id =
           (Inl (HTTPException 404 (''Task with id '' @ str_int task_id @ '' not found'')), s)
       \<and> handle now (GetTask task_id) s =
           (Response 404 (Detail_body (''Task with id '' @ str_int task_id @ '' not found'')), s)
       \<and> (validate p = Inr task_update \<longrightarrow>
            handle now (UpdateTask task_id p) s =
              (Response 404 (Detail_body (''Task with id '' @ str_int task_id @ '' not found'')), s))
       \<and> handle now (DeleteTask task_id) s =
           (Response 404 (Detail_body (''Task with id '' @ str_int task_id @ '' not found'')), s)"
proof -
  from assms have f: "find (\<lambda>task. id_f task = task_id) (tasks_db s) = None"
    by (simp add: find_None_ids)
  from assms have i: "first_index (\<lambda>task. id_f task = task_id) (tasks_db s) = None"
    by (simp add: first_index_None_ids)
  have g: "get_task s task_id = (Inl (not_found task_id), s)"
    by (simp add: get_task_def f)
  have u: "update_task s task_id task_update = (Inl (not_found task_id), s)"
    by (simp add: update_task_def f)
  have d: "delete_task s task_id = (Inl (not_found task_id), s)"
    by (simp add: delete_task_def i)
  show ?thesis
    by (simp add: handle.simps g u d error_response_def) (simp add: not_found_def)
qed

theorem absent_id_gives_404_witness:
  "(999::int) \<notin> set (ids (reach two_creates_one_delete))
   \<and> validate \<lparr>p_title = Some ''x'', p_description = None, p_completed = None\<rparr> =
       Inr \<lparr>title = ''x'', description = None, completed = False\<rparr>
   \<and> handle ''t4'' (GetTask 999) (reach two_creates_one_delete) =
       (Response 404 (Detail_body ''Task with id 999 not found''), reach two_creates_one_delete)
   \<and> handle ''t4'' (UpdateTask 999 \<lparr>p_title = Some ''x'', p_description = None, p_completed = None\<rparr>)
         (reach two_creates_one_delete) =
       (Response 404 (Detail_body ''Task with id 999 not found''), reach two_creates_one_delete)
   \<and> handle ''t4'' (DeleteTask 999) (reach two_creates_one_delete) =
       (Response 404 (Detail_body ''Task with id 999 not found''), reach two_creates_one_delete)"
proof -
  have h: "(999::int) \<notin> set (ids (reach two_creates_one_delete))"
    by (simp add: reach_example ids_def)
  have v: "validate \<lparr>p_title = Some ''x'', p_description = None, p_completed = None\<rparr> =
       Inr \<lparr>title = ''x'', description = None, completed = False\<rparr>"
    by (simp add: validate_def title_violations_def description_violations_def)
  have n: "str_int 999 = ''999''"
    by (simp add: str_int_def str_nat.simps digit_def)
  show ?thesis
    using h v absent_id_gives_404 [OF h, of "\<lparr>title = ''x'', description = None, completed = False\<rparr>"
        "''t4''" "\<lparr>p_title = Some ''x'', p_description = None, p_completed = None\<rparr>"]
    by (simp add: n)
qed

section \<open>Update\<close>

text \<open>
  Claim C2. For a task present in the store and a body that passes validation, the update
  answers 200 with the task as stored afterwards, and a get of the same id returns this
  task: its title is the body's title, its description is the body's description (absent
  when the body omits it) and its completed is the body's flag (\<open>False\<close> when the
  body omits it), whatever the values before the update were.
\<close>

theorem update_replaces_wholesale:
  assumes "task_id \<in> set (ids s)" and "validate p = Inr task_update"
  shows "\<exists>new s'. handle now (UpdateTask task_id p) s = (Response 200 (Task_body new), s')
           \<and> get_task s' task_id = (Inr new, s')
           \<and> p_title p = Some (title new)
           \<and> description new = p_description p
           \<and> completed new = (case p_completed p of Some b \<Rightarrow> b | None \<Rightarrow> False)
           \<and> (p_description p = None \<longrightarrow> description new = None)
           \<and> (p_completed p = None \<longrightarrow> completed new = False)"
proof -
  let ?P = "\<lambda>task. id_f task = task_id"
  from assms(1) obtain i where i: "first_index ?P (tasks_db s) = Some i"
    using in_ids_first_index by blast
  let ?new = "assign task_update (tasks_db s ! i)"
  let ?s' = "s\<lparr>tasks_db := (tasks_db s)[i := ?new]\<rparr>"
  have h: "handle now (UpdateTask task_id p) s = (Response 200 (Task_body ?new), ?s')"
    by (rule handle_update_present [OF i assms(2)])
  from first_index_Some [OF i] have b: "i < length (tasks_db s)" "id_f (tasks_db s ! i) = task_id"
    by simp_all
  have "?P ?new" using b(2) by (simp add: id_f_assign)
  then have "first_index ?P ((tasks_db s)[i := ?new]) = Some i"
    by (rule first_index_update_same [OF i])
  then have g: "get_task ?s' task_id = (Inr ?new, ?s')"
    using b(1) by (simp add: get_task_def find_first_index)
  from validate_Inr [OF assms(2)] have
    "p_title p = Some (title ?new)" "description ?new = p_description p"
    "completed ?new = (case p_completed p of Some b \<Rightarrow> b | None \<Rightarrow> False)"
    by (simp_all add: assign_def)
  with h g show ?thesis by (intro exI [of _ ?new] exI [of _ ?s']) simp
qed

theorem update_replaces_wholesale_witness:
  "(2::int) \<in> set (ids (reach three_creates))
   \<and> validate title_only = Inr \<lparr>title = ''x'', description = None, completed = False\<rparr>
   \<and> find (\<lambda>task. id_f task = 2) (tasks_db (reach three_creates)) =
       Some \<lparr>title = ''T'', description = Some ''D'', completed = True,
             id_f = 2, created_at = ''t2''\<rparr>
   \<and> (\<exists>s'. handle ''t4'' (UpdateTask 2 title_only) (reach three_creates) =
         (Response 200 (Task_body \<lparr>title = ''x'', description = None, completed = False,
                                   id_f = 2, created_at = ''t2''\<rparr>), s')
        \<and> get_task s' 2 =
           (Inr \<lparr>title = ''x'', description = None, completed = False,
                 id_f = 2, created_at = ''t2''\<rparr>, s'))"
proof -
  have h: "(2::int) \<in> set (ids (reach three_creates))"
    by (simp add: reach_three_creates ids_def)
  have f: "find (\<lambda>task. id_f task = 2) (tasks_db (reach three_creates)) =
       Some \<lparr>title = ''T'', description = Some ''D'', completed = True,
             id_f = 2, created_at = ''t2''\<rparr>"
    by (simp add: reach_three_creates)
  from update_replaces_wholesale [OF h validate_title_only, of "''t4''"]
  obtain new s' where
    n: "handle ''t4'' (UpdateTask 2 title_only) (reach three_creates) = (Response 200 (Task_body new), s')"
      "get_task s' 2 = (Inr new, s')"
    by blast
  have "handle ''t4'' (UpdateTask 2 title_only) (reach three_creates) =
         (Response 200 (Task_body \<lparr>title = ''x'', description = None, completed = False,
                                   id_f = 2, created_at = ''t2''\<rparr>),
          (reach three_creates)\<lparr>tasks_db := (tasks_db (reach three_creates))
             [1 := \<lparr>title = ''x'', description = None, completed = False,
                                   id_f = 2, created_at = ''t2''\<rparr>]\<rparr>)"
    by (simp add: reach_three_creates handle.simps validate_title_only update_task_def assign_def)
  with n have "new = \<lparr>title = ''x'', description = None, completed = False,
                                   id_f = 2, created_at = ''t2''\<rparr>"
    by simp
  with n h f validate_title_only show ?thesis by blast
qed

text \<open>
  Claim C5. A successful update rewrites one place of the list, that of the first task
  bearing the id, with the task's title, description and completed replaced: the id and
  the creation time at that place stay as they were, every other place holds the task it
  held, the list keeps its length, and the id counter is unchanged.
\<close>

theorem update_changes_only_target:
  assumes "task_id \<in> set (ids s)" and "validate p = Inr task_update"
  shows "\<exists>i < length (tasks_db s).
           first_index (\<lambda>task. id_f task = task_id) (tasks_db s) = Some i
         \<and> snd (handle now (UpdateTask task_id p) s) =
             s\<lparr>tasks_db := (tasks_db s)[i := (tasks_db s ! i)
                  \<lparr>title := title task_update, description := description task_update,
                   completed := completed task_update\<rparr>]\<rparr>
         \<and> fst (handle now (UpdateTask task_id p) s) =
             Response 200 (Task_body (tasks_db (snd (handle now (UpdateTask task_id p) s)) ! i))
         \<and> id_f (tasks_db (snd (handle now (UpdateTask task_id p) s)) ! i) = id_f (tasks_db s ! i)
         \<and> id_f (tasks_db s ! i) = task_id
         \<and> created_at (tasks_db (snd (handle now (UpdateTask task_id p) s)) ! i) =
             created_at (tasks_db s ! i)
         \<and> length (tasks_db (snd (handle now (UpdateTask task_id p) s))) = length (tasks_db s)
         \<and> (\<forall>j < length (tasks_db s). j \<noteq> i \<longrightarrow>
               tasks_db (snd (handle now (UpdateTask task_id p) s)) ! j = tasks_db s ! j)
         \<and> task_id_counter (snd (handle now (UpdateTask task_id p) s)) = task_id_counter s"
proof -
  from assms(1) obtain i where i: "first_index (\<lambda>task. id_f task = task_id) (tasks_db s) = Some i"
    using in_ids_first_index by blast
  from first_index_Some [OF i] have b: "i < length (tasks_db s)" "id_f (tasks_db s ! i) = task_id"
    by simp_all
  note h = handle_update_present [OF i assms(2), of now]
  show ?thesis
    using b i by (intro exI [of _ i]) (simp add: h assign_def)
qed

theorem update_changes_only_target_witness:
  "(2::int) \<in> set (ids (reach three_creates))
   \<and> validate title_only = Inr \<lparr>title = ''x'', description = None, completed = False\<rparr>
   \<and> tasks_db (snd (handle ''t4'' (UpdateTask 2 title_only) (reach three_creates))) =
        [\<lparr>title = ''Buy milk'', description = None, completed = False,
          id_f = 1, created_at = ''t1''\<rparr>,
         \<lparr>title = ''x'', description = None, completed = False,
          id_f = 2, created_at = ''t2''\<rparr>,
         \<lparr>title = ''Buy milk'', description = None, completed = False,
          id_f = 3, created_at = ''t3''\<rparr>]
   \<and> task_id_counter (snd (handle ''t4'' (UpdateTask 2 title_only) (reach three_creates))) = 4"
proof -
  have h: "(2::int) \<in> set (ids (reach three_creates))"
    by (simp add: reach_three_creates ids_def)
  from update_changes_only_target [OF h validate_title_only, of "''t4''"]
  obtain i where
    "first_index (\<lambda>task. id_f task = 2) (tasks_db (reach three_creates)) = Some i"
    "snd (handle ''t4'' (UpdateTask 2 title_only) (reach three_creates)) =
       (reach three_creates)\<lparr>tasks_db := (tasks_db (reach three_creates))
          [i := (tasks_db (reach three_creates) ! i)\<lparr>title := ''x'', description := None,
                   completed := False\<rparr>]\<rparr>"
    by auto
  then show ?thesis
    using h validate_title_only by (simp add: reach_three_creates) auto
qed

section \<open>Title length\<close>

text \<open>
  Claim C4. A title of exactly 100 characters passes the title check; with a description
  that passes its own check, the create request is answered 201 with the new task and the
  update request is answered 200 or 404, never 422. A title of 101 characters and the
  empty title are answered 422 by create and by update, and the store, id counter included,
  is then as before. Every request answered 422 leaves the store as it was.
\<close>

theorem title_length_boundary:
  "(length t = 100 \<longrightarrow> title_violations (Some t) = [])
   \<and> (length t = 100 \<and> description_violations d = [] \<longrightarrow>
        fst (handle now (CreateTask \<lparr>p_title = Some t, p_description = d, p_completed = c\<rparr>) s) =
          Response 201 (Task_body \<lparr>title = t, description = d,
             completed = (case c of Some b \<Rightarrow> b | None \<Rightarrow> False),
             id_f = task_id_counter s, created_at = now\<rparr>)
        \<and> status_code (fst (handle now
              (UpdateTask task_id \<lparr>p_title = Some t, p_description = d, p_completed = c\<rparr>) s))
            \<in> {200, 404})
   \<and> (length t = 101 \<or> length t = 0 \<longrightarrow>
        status_code (fst (handle now
            (CreateTask \<lparr>p_title = Some t, p_description = d, p_completed = c\<rparr>) s)) = 422
        \<and> snd (handle now
            (CreateTask \<lparr>p_title = Some t, p_description = d, p_completed = c\<rparr>) s) = s
        \<and> status_code (fst (handle now
            (UpdateTask task_id \<lparr>p_title = Some t, p_description = d, p_completed = c\<rparr>) s)) = 422
        \<and> snd (handle now
            (UpdateTask task_id \<lparr>p_title = Some t, p_description = d, p_completed = c\<rparr>) s) = s)
   \<and> (status_code (fst (handle now r s)) = 422 \<longrightarrow>
        snd (handle now r s) = s \<and> task_id_counter (snd (handle now r s)) = task_id_counter s)"
proof -
  let ?p = "\<lparr>p_title = Some t, p_description = d, p_completed = c\<rparr>"
  have a: "length t = 100 \<longrightarrow> title_violations (Some t) = []"
    by (simp add: title_violations_def)
  have b: "fst (handle now (CreateTask ?p) s) =
          Response 201 (Task_body \<lparr>title = t, description = d,
             completed = (case c of Some b \<Rightarrow> b | None \<Rightarrow> False),
             id_f = task_id_counter s, created_at = now\<rparr>)
        \<and> status_code (fst (handle now (UpdateTask task_id ?p) s)) \<in> {200, 404}"
    if "length t = 100" "description_violations d = []"
  proof -
    note v = validate_good_title [OF that, of c]
    have "fst (handle now (CreateTask ?p) s) =
          Response 201 (Task_body \<lparr>title = t, description = d,
             completed = (case c of Some b \<Rightarrow> b | None \<Rightarrow> False),
             id_f = task_id_counter s, created_at = now\<rparr>)"
      by (simp add: handle_create_valid [OF v] create_task_def Let_def)
    with status_update_valid [OF v] show ?thesis by blast
  qed
  have c: "status_code (fst (handle now (CreateTask ?p) s)) = 422
        \<and> snd (handle now (CreateTask ?p) s) = s
        \<and> status_code (fst (handle now (UpdateTask task_id ?p) s)) = 422
        \<and> snd (handle now (UpdateTask task_id ?p) s) = s"
    if "length t = 101 \<or> length t = 0"
  proof -
    from validate_bad_title [OF that] obtain vs where "validate ?p = Inl vs" by blast
    then show ?thesis by (simp add: handle.simps)
  qed
  have d: "status_code (fst (handle now r s)) = 422 \<longrightarrow>
        snd (handle now r s) = s \<and> task_id_counter (snd (handle now r s)) = task_id_counter s"
    using rejected_unchanged [of now r s] by simp
  from a b c d show ?thesis by blast
qed

theorem title_length_boundary_witness:
  "length (replicate 100 CHR ''a'') = 100 \<and> description_violations None = []
   \<and> status_code (fst (handle ''t1'' (CreateTask (title_of_length 100)) init_store)) = 201
   \<and> status_code (fst (handle ''t1'' (UpdateTask 1 (title_of_length 100)) init_store)) = 404
   \<and> length (replicate 101 CHR ''a'') = 101
   \<and> handle ''t1'' (CreateTask (title_of_length 101)) init_store =
       (Response 422 (Validation_body [title_too_long]), init_store)
   \<and> handle ''t1'' (UpdateTask 1 (title_of_length 101)) init_store =
       (Response 422 (Validation_body [title_too_long]), init_store)
   \<and> length (replicate 0 CHR ''a'') = 0
   \<and> handle ''t1'' (CreateTask (title_of_length 0)) init_store =
       (Response 422 (Validation_body [title_too_short]), init_store)
   \<and> handle ''t1'' (UpdateTask 1 (title_of_length 0)) init_store =
       (Response 422 (Validation_body [title_too_short]), init_store)"
proof -
  have u: "status_code (fst (handle ''t1'' (UpdateTask 1 (title_of_length 100)) init_store)) = 404"
    by (simp add: title_of_length_def handle.simps validate_def title_violations_def
        description_violations_def update_task_def init_store_def)
  have f: "fst (handle ''t1'' (CreateTask (title_of_length 101)) init_store) =
             Response 422 (Validation_body [title_too_long])"
       "fst (handle ''t1'' (UpdateTask 1 (title_of_length 101)) init_store) =
             Response 422 (Validation_body [title_too_long])"
       "fst (handle ''t1'' (CreateTask (title_of_length 0)) init_store) =
             Response 422 (Validation_body [title_too_short])"
       "fst (handle ''t1'' (UpdateTask 1 (title_of_length 0)) init_store) =
             Response 422 (Validation_body [title_too_short])"
    by (simp_all add: title_of_length_def handle.simps validate_def title_violations_def
        description_violations_def)
  show ?thesis
    using u f
      title_length_boundary [of "replicate 100 CHR ''a''" None "''t1''" None init_store 1
        "CreateTask (title_of_length 101)"]
      title_length_boundary [of "replicate 101 CHR ''a''" None "''t1''" None init_store 1
        "UpdateTask 1 (title_of_length 101)"]
      title_length_boundary [of "replicate 0 CHR ''a''" None "''t1''" None init_store 1
        "CreateTask (title_of_length 0)"]
    by (simp add: title_of_length_def description_violations_def prod_eq_iff)
qed

section \<open>Delete\<close>

text \<open>
  Claim C6. When a delete of an id is answered 204 in a store reached from process start,
  a later get of this id and a later delete of this id are both answered 404 with the
  not-found detail, whatever requests are served in between; in particular when no create
  is served in between.
\<close>

theorem delete_is_terminal:
  assumes "fst (handle now (DeleteTask task_id) (reach evs)) = Response 204 Empty_body"
  shows "handle now1 (GetTask task_id)
           (snd (run evs' (snd (handle now (DeleteTask task_id) (reach evs))))) =
         (Response 404 (Detail_body (''Task with id '' @ str_int task_id @ '' not found'')),
          snd (run evs' (snd (handle now (DeleteTask task_id) (reach evs)))))
       \<and> handle now2 (DeleteTask task_id)
           (snd (run evs' (snd (handle now (DeleteTask task_id) (reach evs))))) =
         (Response 404 (Detail_body (''Task with id '' @ str_int task_id @ '' not found'')),
          snd (run evs' (snd (handle now (DeleteTask task_id) (reach evs)))))"
proof -
  let ?s = "reach evs"
  let ?s1 = "snd (handle now (DeleteTask task_id) ?s)"
  have inv: "store_inv ?s" by (rule store_inv_reach)
  then have "distinct (ids ?s)"
    by (simp add: store_inv_def strict_sorted_iff)
  then have gone: "task_id \<notin> set (ids ?s1)"
    unfolding snd_handle_delete by (rule deleted_absent)
  from delete_accepted_present [OF assms] inv have "task_id < task_id_counter ?s"
    by (simp add: store_inv_def)
  then have below: "task_id < task_id_counter ?s1"
    by (simp add: snd_handle_delete)
  from absent_run [OF gone below] have "task_id \<notin> set (ids (snd (run evs' ?s1)))" .
  then show ?thesis
    by (simp add: handle_get_absent handle_delete_absent)
qed

theorem delete_is_terminal_witness:
  "fst (handle ''t4'' (DeleteTask 2) (reach three_creates)) = Response 204 Empty_body
   \<and> fst (handle ''t6'' (GetTask 2)
        (snd (run [(''t5'', CreateTask buy_milk)]
           (snd (handle ''t4'' (DeleteTask 2) (reach three_creates)))))) =
       Response 404 (Detail_body ''Task with id 2 not found'')
   \<and> fst (handle ''t7'' (DeleteTask 2)
        (snd (run [(''t5'', CreateTask buy_milk)]
           (snd (handle ''t4'' (DeleteTask 2) (reach three_creates)))))) =
       Response 404 (Detail_body ''Task with id 2 not found'')"
proof -
  have h: "fst (handle ''t4'' (DeleteTask 2) (reach three_creates)) = Response 204 Empty_body"
    by (simp add: reach_three_creates handle.simps delete_task_def)
  have n: "str_int 2 = ''2''"
    by (simp add: str_int_def str_nat.simps digit_def)
  from delete_is_terminal [OF h, of "''t6''" "[(''t5'', CreateTask buy_milk)]" "''t7''"] h
  show ?thesis by (simp add: n)
qed

section \<open>Round trip and listing\<close>

text \<open>
  Claim C7. In a store reached from process start, a create with a body that passes
  validation is answered 201 with a task whose title, description and completed are those
  of the body (completed \<open>False\<close> when the body omits it), whose id is the counter's
  value, at least 1, and whose creation time is the clock reading; a get of that id on the
  store after the create is answered 200 with the same task.
\<close>

theorem create_then_get_round_trip:
  assumes "validate p = Inr task"
  shows "\<exists>new s'. handle now (CreateTask p) (reach evs) = (Response 201 (Task_body new), s')
           \<and> handle now1 (GetTask (id_f new)) s' = (Response 200 (Task_body new), s')
           \<and> p_title p = Some (title new)
           \<and> description new = p_description p
           \<and> completed new = (case p_completed p of Some b \<Rightarrow> b | None \<Rightarrow> False)
           \<and> id_f new = task_id_counter (reach evs)
           \<and> 1 \<le> id_f new
           \<and> created_at new = now"
proof -
  let ?s = "reach evs"
  let ?new = "fst (create_task ?s now task)"
  let ?s' = "snd (create_task ?s now task)"
  have inv: "store_inv ?s" by (rule store_inv_reach)
  have c: "handle now (CreateTask p) ?s = (Response 201 (Task_body ?new), ?s')"
    by (rule handle_create_valid [OF assms])
  have "get_task ?s' (task_id_counter ?s) = (Inr ?new, ?s')"
    by (rule get_after_create [OF inv])
  then have g: "handle now1 (GetTask (id_f ?new)) ?s' = (Response 200 (Task_body ?new), ?s')"
    by (simp add: handle.simps)
  from validate_Inr [OF assms] have f:
    "p_title p = Some (title ?new)" "description ?new = p_description p"
    "completed ?new = (case p_completed p of Some b \<Rightarrow> b | None \<Rightarrow> False)"
    "created_at ?new = now"
    by (simp_all add: create_task_def Let_def)
  from inv have "1 \<le> id_f ?new"
    by (simp add: store_inv_def)
  with c g f show ?thesis
    by (intro exI [of _ ?new] exI [of _ ?s']) simp
qed

theorem create_then_get_round_trip_witness:
  "validate buy_milk = Inr \<lparr>title = ''Buy milk'', description = None, completed = False\<rparr>
   \<and> (\<exists>s'. handle ''t1'' (CreateTask buy_milk) (reach []) =
         (Response 201 (Task_body \<lparr>title = ''Buy milk'', description = None,
                                   completed = False, id_f = 1, created_at = ''t1''\<rparr>), s')
        \<and> handle ''t2'' (GetTask 1) s' =
         (Response 200 (Task_body \<lparr>title = ''Buy milk'', description = None,
                                   completed = False, id_f = 1, created_at = ''t1''\<rparr>), s'))"
proof -
  have v: "validate buy_milk = Inr \<lparr>title = ''Buy milk'', description = None, completed = False\<rparr>"
    by (simp add: validate_def title_violations_def description_violations_def buy_milk_def)
  from create_then_get_round_trip [OF v, of "''t1''" "[]" "''t2''"]
  obtain new s' where n:
    "handle ''t1'' (CreateTask buy_milk) (reach []) = (Response 201 (Task_body new), s')"
    "handle ''t2'' (GetTask (id_f new)) s' = (Response 200 (Task_body new), s')"
    by blast
  have "fst (handle ''t1'' (CreateTask buy_milk) (reach [])) =
         Response 201 (Task_body \<lparr>title = ''Buy milk'', description = None,
                                   completed = False, id_f = 1, created_at = ''t1''\<rparr>)"
    by (simp add: handle_create_valid [OF v] create_task_def reach_def init_store_def Let_def)
  with n(1) have "new = \<lparr>title = ''Buy milk'', description = None,
                                   completed = False, id_f = 1, created_at = ''t1''\<rparr>"
    by simp
  with n v show ?thesis by auto
qed

text \<open>
  Claim C8. In a store reached from process start, the list request is answered 200 with
  the tasks of the store and leaves the store as it is, so a second list request right
  after it gets the same answer. The ids of the listed tasks are exactly the ids handed
  out by the creates, in the order of creation, without the ids of the deletes answered
  204: every task created and not deleted is listed, and no other. The ids are strictly
  increasing, and an update, accepted or not, leaves their sequence as it is. A create
  with a body that passes validation puts the task it answers at the end of the list, and
  a delete answered 204 removes the tasks bearing the id and leaves the others in place.
\<close>

theorem list_in_insertion_order:
  "handle now ListTasks (reach evs) =
     (Response 200 (Tasks_body (tasks_db (reach evs))), reach evs)
   \<and> handle now1 ListTasks (snd (handle now ListTasks (reach evs))) =
       handle now ListTasks (reach evs)
   \<and> map id_f (tasks_db (reach evs)) =
       filter (\<lambda>i. i \<notin> set (deleted_ids evs (fst (run evs init_store))))
         (created_ids (fst (run evs init_store)))
   \<and> sorted_wrt (<) (map id_f (tasks_db (reach evs)))
   \<and> map id_f (tasks_db (snd (handle now (UpdateTask task_id p) (reach evs)))) =
       map id_f (tasks_db (reach evs))
   \<and> (validate p = Inr task \<longrightarrow>
        handle now (CreateTask p) (reach evs) =
          (Response 201 (Task_body
             \<lparr>title = title task, description = description task, completed = completed task,
              id_f = task_id_counter (reach evs), created_at = now\<rparr>),
           (reach evs)
             \<lparr>tasks_db := tasks_db (reach evs) @
                [\<lparr>title = title task, description = description task,
                  completed = completed task,
                  id_f = task_id_counter (reach evs), created_at = now\<rparr>],
              task_id_counter := task_id_counter (reach evs) + 1\<rparr>))
   \<and> (fst (handle now (DeleteTask task_id) (reach evs)) = Response 204 Empty_body \<longrightarrow>
        tasks_db (snd (handle now (DeleteTask task_id) (reach evs))) =
          filter (\<lambda>task. id_f task \<noteq> task_id) (tasks_db (reach evs)))"
proof -
  let ?s = "reach evs"
  have inv: "store_inv ?s" by (rule store_inv_reach)
  then have so: "sorted_wrt (<) (ids ?s)"
    by (simp add: store_inv_def)
  then have dist: "distinct (ids ?s)"
    by (simp add: strict_sorted_iff)
  have tr: "map id_f (tasks_db ?s) =
       filter (\<lambda>i. i \<notin> set (deleted_ids evs (fst (run evs init_store))))
         (created_ids (fst (run evs init_store)))"
    using ids_reach_trace [of evs] by (simp only: ids_def)
  have u: "ids (snd (handle now (UpdateTask task_id p) ?s)) = ids ?s"
    by (cases "validate p") (simp_all add: snd_handle_update)
  have c: "handle now (CreateTask p) ?s =
          (Response 201 (Task_body
             \<lparr>title = title task, description = description task, completed = completed task,
              id_f = task_id_counter ?s, created_at = now\<rparr>),
           ?s\<lparr>tasks_db := tasks_db ?s @
                [\<lparr>title = title task, description = description task,
                  completed = completed task,
                  id_f = task_id_counter ?s, created_at = now\<rparr>],
              task_id_counter := task_id_counter ?s + 1\<rparr>)"
    if "validate p = Inr task"
    by (simp add: handle_create_valid [OF that] create_task_def Let_def)
  have d: "tasks_db (snd (handle now (DeleteTask task_id) ?s)) =
          filter (\<lambda>task. id_f task \<noteq> task_id) (tasks_db ?s)"
    if "fst (handle now (DeleteTask task_id) ?s) = Response 204 Empty_body"
    unfolding snd_handle_delete
    by (rule tasks_delete_present [OF dist delete_accepted_present [OF that]])
  from tr so u c d show ?thesis
    by (simp add: handle_list ids_def)
qed

theorem list_in_insertion_order_witness:
  "validate buy_milk = Inr \<lparr>title = ''Buy milk'', description = None, completed = False\<rparr>
   \<and> fst (handle ''t4'' (DeleteTask 2) (reach two_creates_one_delete)) = Response 204 Empty_body
   \<and> created_ids (fst (run two_creates_one_delete init_store)) = [1, 2]
   \<and> deleted_ids two_creates_one_delete (fst (run two_creates_one_delete init_store)) = [1]
   \<and> handle ''t4'' ListTasks (reach two_creates_one_delete) =
       (Response 200 (Tasks_body
          [\<lparr>title = ''Buy milk'', description = None, completed = False,
            id_f = 2, created_at = ''t2''\<rparr>]),
        reach two_creates_one_delete)
   \<and> tasks_db (snd (handle ''t4'' (CreateTask buy_milk) (reach two_creates_one_delete))) =
       [\<lparr>title = ''Buy milk'', description = None, completed = False,
         id_f = 2, created_at = ''t2''\<rparr>,
        \<lparr>title = ''Buy milk'', description = None, completed = False,
         id_f = 3, created_at = ''t4''\<rparr>]
   \<and> tasks_db (snd (handle ''t4'' (DeleteTask 2) (reach two_creates_one_delete))) = []"
proof -
  have v: "validate buy_milk = Inr \<lparr>title = ''Buy milk'', description = None, completed = False\<rparr>"
    by (simp add: validate_def title_violations_def description_violations_def buy_milk_def)
  have h: "fst (handle ''t4'' (DeleteTask 2) (reach two_creates_one_delete)) =
             Response 204 Empty_body"
    by (simp add: reach_example handle.simps delete_task_def)
  have r: "fst (run two_creates_one_delete init_store) =
     [Response 201 (Task_body \<lparr>title = ''Buy milk'', description = None, completed = False,
                     id_f = 1, created_at = ''t1''\<rparr>),
      Response 201 (Task_body \<lparr>title = ''Buy milk'', description = None, completed = False,
                     id_f = 2, created_at = ''t2''\<rparr>),
      Response 204 Empty_body]"
    by (simp add: eval_defs)
  have e: "created_ids (fst (run two_creates_one_delete init_store)) = [1, 2]"
    "deleted_ids two_creates_one_delete (fst (run two_creates_one_delete init_store)) = [1]"
    by (simp_all add: r) (simp add: two_creates_one_delete_def)
  from list_in_insertion_order
    [of "''t4''" two_creates_one_delete "''t5''" 2 buy_milk
      "\<lparr>title = ''Buy milk'', description = None, completed = False\<rparr>"] v h e
  show ?thesis
    by (simp add: reach_example)
qed

end
